theory Spec2Isabelle
  imports Main
begin

section \<open>Python strings\<close>

text \<open>
  A Python \<open>str\<close> is a sequence of code points. It is modelled as a \<open>string\<close>, one
  \<open>char\<close> per code point, which covers the code points U+0000 to U+00FF; \<open>length\<close>
  is Python's \<open>len\<close>. The character classes below are the ones of CPython on that range.
\<close>

definition code_point :: "char \<Rightarrow> nat" where
  "code_point c = of_char c"

text \<open>\<open>str.isspace\<close> on one character; also what \<open>str.strip()\<close> removes and what \<open>\s\<close> matches.\<close>

definition isspace :: "char \<Rightarrow> bool" where
  "isspace c = (let n = code_point c in
     (9 \<le> n \<and> n \<le> 13) \<or> (28 \<le> n \<and> n \<le> 32) \<or> n = 133 \<or> n = 160)"

text \<open>\<open>str.isalpha\<close> on one character.\<close>

definition isalpha :: "char \<Rightarrow> bool" where
  "isalpha c = (let n = code_point c in
     (65 \<le> n \<and> n \<le> 90) \<or> (97 \<le> n \<and> n \<le> 122) \<or> n = 170 \<or> n = 181 \<or> n = 186 \<or>
     (192 \<le> n \<and> n \<le> 214) \<or> (216 \<le> n \<and> n \<le> 246) \<or> (248 \<le> n \<and> n \<le> 255))"

text \<open>\<open>\d\<close> of the \<open>re\<close> module on a \<open>str\<close> pattern: the decimal digits.\<close>

definition isdecimal :: "char \<Rightarrow> bool" where
  "isdecimal c = (let n = code_point c in 48 \<le> n \<and> n \<le> 57)"

text \<open>\<open>\w\<close> of the \<open>re\<close> module on a \<open>str\<close> pattern: alphanumeric characters and the underscore.\<close>

definition isword :: "char \<Rightarrow> bool" where
  "isword c = (let n = code_point c in
     isalpha c \<or> isdecimal c \<or> n = 95 \<or> n = 178 \<or> n = 179 \<or> n = 185 \<or>
     (188 \<le> n \<and> n \<le> 190))"

text \<open>\<open>s.strip()\<close>: leading and trailing whitespace removed.\<close>

definition strip :: "string \<Rightarrow> string" where
  "strip s = rev (dropWhile isspace (rev (dropWhile isspace s)))"

text \<open>\<open>s.startswith(p)\<close> and \<open>s.endswith(p)\<close>.\<close>

definition startswith :: "string \<Rightarrow> string \<Rightarrow> bool" where
  "startswith s p = (take (length p) s = p)"

definition endswith :: "string \<Rightarrow> string \<Rightarrow> bool" where
  "endswith s p = (length p \<le> length s \<and> drop (length s - length p) s = p)"

text \<open>\<open>s.split('\n')\<close>: the result is never empty, and no line holds a newline.\<close>

fun split_newline :: "string \<Rightarrow> string list" where
  "split_newline [] = [[]]"
| "split_newline (c # cs) =
     (if c = CHR ''\<newline>'' then [] # split_newline cs
      else (case split_newline cs of
              [] \<Rightarrow> [[c]]
            | line # lines \<Rightarrow> (c # line) # lines))"

text \<open>\<open>' '.join(xs)\<close>.\<close>

fun join_space :: "string list \<Rightarrow> string" where
  "join_space [] = []"
| "join_space [x] = x"
| "join_space (x # y # ys) = x @ CHR '' '' # join_space (y # ys)"

section \<open>Regular expressions of the \<open>re\<close> module\<close>

text \<open>
  The patterns of the program are sequences of single characters, character classes,
  quantified characters or classes, one capturing group around such a quantified class,
  and the anchors \<open>^\<close> and \<open>$\<close>. The matcher below is the backtracking matcher of \<open>re\<close> on
  that fragment: a lazy quantifier tries the rest of the pattern before it takes another
  character, a greedy one after.
\<close>

datatype cset =
    Chr char            \<comment> \<open>a literal character\<close>
  | Dot                 \<comment> \<open>\<open>.\<close>: any character but the newline\<close>
  | Word                \<comment> \<open>\<open>\w\<close>\<close>
  | Space               \<comment> \<open>\<open>\s\<close>\<close>
  | Digit               \<comment> \<open>\<open>\d\<close>\<close>
  | OneOf "char list"   \<comment> \<open>\<open>[...]\<close>\<close>

fun in_cset :: "cset \<Rightarrow> char \<Rightarrow> bool" where
  "in_cset (Chr a) c = (c = a)"
| "in_cset Dot c = (c \<noteq> CHR ''\<newline>'')"
| "in_cset Word c = isword c"
| "in_cset Space c = isspace c"
| "in_cset Digit c = isdecimal c"
| "in_cset (OneOf as) c = (c \<in> set as)"

datatype re_node =
    One cset            \<comment> \<open>\<open>x\<close>\<close>
  | LazyStar cset       \<comment> \<open>\<open>x*?\<close>\<close>
  | Star cset           \<comment> \<open>\<open>x*\<close>\<close>
  | Plus cset           \<comment> \<open>\<open>x+\<close>\<close>
  | Rep cset nat nat    \<comment> \<open>\<open>x{m,n}\<close>\<close>
  | Bol                 \<comment> \<open>\<open>^\<close> without MULTILINE: the start of the subject\<close>
  | Eol                 \<comment> \<open>\<open>$\<close> without MULTILINE: the end, or before a final newline\<close>
  | Grp re_node         \<comment> \<open>\<open>(...)\<close>: a capturing group\<close>

text \<open>
  \<open>re_match at_start nodes s\<close> matches the nodes at the front of \<open>s\<close>; \<open>at_start\<close> says
  that \<open>s\<close> is the whole subject. The result is the text each node consumed, in the order
  of the nodes, and the rest of the subject; \<open>None\<close> when no way of matching succeeds.
\<close>

fun re_match :: "bool \<Rightarrow> re_node list \<Rightarrow> string \<Rightarrow> (string list \<times> string) option" where
  "re_match b [] s = Some ([], s)"
| "re_match b (One cs # r) s =
     (case s of
        [] \<Rightarrow> None
      | x # xs \<Rightarrow>
          if in_cset cs x
          then map_option (\<lambda>(gs, t). ([x] # gs, t)) (re_match False r xs)
          else None)"
| "re_match b (LazyStar cs # r) s =
     (case re_match b r s of
        Some (gs, t) \<Rightarrow> Some ([] # gs, t)
      | None \<Rightarrow>
          (case s of
             [] \<Rightarrow> None
           | x # xs \<Rightarrow>
               if in_cset cs x
               then map_option (\<lambda>(gs, t). ((x # hd gs) # tl gs, t))
                      (re_match False (LazyStar cs # r) xs)
               else None))"
| "re_match b (Star cs # r) s =
     (case (case s of
              [] \<Rightarrow> None
            | x # xs \<Rightarrow>
                if in_cset cs x
                then map_option (\<lambda>(gs, t). ((x # hd gs) # tl gs, t))
                       (re_match False (Star cs # r) xs)
                else None) of
        Some res \<Rightarrow> Some res
      | None \<Rightarrow> map_option (\<lambda>(gs, t). ([] # gs, t)) (re_match b r s))"
| "re_match b (Plus cs # r) s =
     (case s of
        [] \<Rightarrow> None
      | x # xs \<Rightarrow>
          if in_cset cs x
          then map_option (\<lambda>(gs, t). ((x # hd gs) # tl gs, t))
                 (re_match False (Star cs # r) xs)
          else None)"
| "re_match b (Rep cs m n # r) s =
     (case (case s of
              [] \<Rightarrow> None
            | x # xs \<Rightarrow>
                if 0 < n \<and> in_cset cs x
                then map_option (\<lambda>(gs, t). ((x # hd gs) # tl gs, t))
                       (re_match False (Rep cs (m - 1) (n - 1) # r) xs)
                else None) of
        Some res \<Rightarrow> Some res
      | None \<Rightarrow>
          if m = 0 then map_option (\<lambda>(gs, t). ([] # gs, t)) (re_match b r s) else None)"
| "re_match b (Bol # r) s =
     (if b then map_option (\<lambda>(gs, t). ([] # gs, t)) (re_match b r s) else None)"
| "re_match b (Eol # r) s =
     (if s = [] \<or> s = [CHR ''\<newline>'']
      then map_option (\<lambda>(gs, t). ([] # gs, t)) (re_match b r s) else None)"
| "re_match b (Grp n # r) s = re_match b (n # r) s"

text \<open>The texts of the capturing groups, group 1 first.\<close>

fun groups :: "re_node list \<Rightarrow> string list \<Rightarrow> string list" where
  "groups (Grp n # r) (g # gs) = g # groups r gs"
| "groups (n # r) (g # gs) = groups r gs"
| "groups r gs = []"

text \<open>
  A replacement template: literal text and references \<open>\k\<close> to a group. A reference to a
  group that the pattern does not have is refused by \<open>re\<close> when it reads the template;
  the program has none, and here such a reference expands to nothing.
\<close>

datatype repl = Txt string | Backref nat

fun expand :: "repl list \<Rightarrow> string list \<Rightarrow> string" where
  "expand [] gs = []"
| "expand (Txt t # r) gs = t @ expand r gs"
| "expand (Backref k # r) gs =
     (if 0 < k \<and> k \<le> length gs then gs ! (k - 1) else []) @ expand r gs"

text \<open>
  \<open>re.sub(pattern, template, s)\<close>: the subject is scanned from the left; at each position
  the pattern is tried, a match is replaced by the expanded template and the scan goes on
  behind the match, and a character at which the pattern does not match is copied.
  \<open>skip\<close> counts the characters of the last match that the scan still has to pass.
  No pattern of the program can match the empty string: each has a node that takes at
  least one character, see \<open>re_match_nonempty\<close> and \<open>program_patterns_take_char\<close> below.
  The special rules of \<open>re\<close> for empty matches are therefore not modelled: an empty
  match is treated as no match.
\<close>

fun re_sub_scan :: "re_node list \<Rightarrow> repl list \<Rightarrow> nat \<Rightarrow> bool \<Rightarrow> string \<Rightarrow> string" where
  "re_sub_scan p t skip b [] = []"
| "re_sub_scan p t (Suc skip) b (x # xs) = re_sub_scan p t skip False xs"
| "re_sub_scan p t 0 b (x # xs) =
     (case re_match b p (x # xs) of
        None \<Rightarrow> x # re_sub_scan p t 0 False xs
      | Some (gs, rest) \<Rightarrow>
          (case length (concat gs) of
             0 \<Rightarrow> x # re_sub_scan p t 0 False xs
           | Suc n \<Rightarrow> expand t (groups p gs) @ re_sub_scan p t n False xs))"

definition re_sub :: "re_node list \<Rightarrow> repl list \<Rightarrow> string \<Rightarrow> string" where
  "re_sub p t s = re_sub_scan p t 0 True s"

text \<open>A literal piece of a pattern: one node per character.\<close>

definition lit :: "string \<Rightarrow> re_node list" where
  "lit s = map (\<lambda>c. One (Chr c)) s"

section \<open>The class \<open>ObsidianQuoteDisplay\<close>\<close>

text \<open>The object has one attribute, set by \<open>__init__\<close>. Every method takes the object first.\<close>

record ObsidianQuoteDisplay =
  books_directory :: string

subsection \<open>\<open>extract_book_title\<close>\<close>

text \<open>The \<open>for\<close> loop over the lines, with its early \<open>return\<close>.\<close>

fun book_title_loop :: "string list \<Rightarrow> string" where
  "book_title_loop [] = ''Unknown Book''"
| "book_title_loop (line # lines) =
     (let line = strip line in
      if startswith line ''# '' then strip (drop 2 line)
      else book_title_loop lines)"

definition extract_book_title :: "ObsidianQuoteDisplay \<Rightarrow> string \<Rightarrow> string" where
  "extract_book_title self content = book_title_loop (split_newline content)"

subsection \<open>\<open>is_markup_only\<close>\<close>

text \<open>
  The sixteen substitutions, each with the empty replacement, in the order of the source:
  \<^verbatim>\<open>!\[\[.*?\]\]\<close>, \<^verbatim>\<open>!rw-\w+\<close>, \<^verbatim>\<open>\[\[.*?\]\]\<close>, \<^verbatim>\<open>\[.*?\]\(.*?\)\<close>,
  \<^verbatim>\<open>`.*?`\<close>, \<^verbatim>\<open>\*\*.*?\*\*\<close>, \<^verbatim>\<open>\*.*?\*\<close>, \<^verbatim>\<open>==.*?==\<close>, \<^verbatim>\<open>%%.*?%%\<close>,
  \<^verbatim>\<open><!--.*?-->\<close>, \<^verbatim>\<open><.*?>\<close>, \<^verbatim>\<open>#{1,6}\s*\<close>, \<^verbatim>\<open>^>\s*\<close>, \<^verbatim>\<open>^[-*+]\s*\<close>,
  \<^verbatim>\<open>^\d+\.\s*\<close> and \<^verbatim>\<open>^---+$\<close>. What is left is trimmed; the line is markup-only
  when fewer than 20 characters are left or no letter is.
\<close>

definition is_markup_only :: "ObsidianQuoteDisplay \<Rightarrow> string \<Rightarrow> bool" where
  "is_markup_only self line =
     (let cleaned = line;
          cleaned = re_sub (lit ''![['' @ [LazyStar Dot] @ lit '']]'') [] cleaned;
          cleaned = re_sub (lit ''!rw-'' @ [Plus Word]) [] cleaned;
          cleaned = re_sub (lit ''[['' @ [LazyStar Dot] @ lit '']]'') [] cleaned;
          cleaned = re_sub (lit ''['' @ [LazyStar Dot] @ lit ''](''
                            @ [LazyStar Dot] @ lit '')'') [] cleaned;
          cleaned = re_sub (lit ''`'' @ [LazyStar Dot] @ lit ''`'') [] cleaned;
          cleaned = re_sub (lit ''**'' @ [LazyStar Dot] @ lit ''**'') [] cleaned;
          cleaned = re_sub (lit ''*'' @ [LazyStar Dot] @ lit ''*'') [] cleaned;
          cleaned = re_sub (lit ''=='' @ [LazyStar Dot] @ lit ''=='') [] cleaned;
          cleaned = re_sub (lit ''%%'' @ [LazyStar Dot] @ lit ''%%'') [] cleaned;
          cleaned = re_sub (lit ''<!--'' @ [LazyStar Dot] @ lit ''-->'') [] cleaned;
          cleaned = re_sub (lit ''<'' @ [LazyStar Dot] @ lit ''>'') [] cleaned;
          cleaned = re_sub [Rep (Chr CHR ''#'') 1 6, Star Space] [] cleaned;
          cleaned = re_sub ([Bol] @ lit ''>'' @ [Star Space]) [] cleaned;
          cleaned = re_sub [Bol, One (OneOf ''-*+''), Star Space] [] cleaned;
          cleaned = re_sub ([Bol, Plus Digit] @ lit ''.'' @ [Star Space]) [] cleaned;
          cleaned = re_sub ([Bol] @ lit ''--'' @ [Plus (Chr CHR ''-''), Eol]) [] cleaned;
          cleaned = strip cleaned
      in length cleaned < 20 \<or> \<not> list_ex isalpha cleaned)"

subsection \<open>\<open>clean_markdown\<close>\<close>

text \<open>
  The seven substitutions, each with the replacement \<^verbatim>\<open>\1\<close>, in the order of the
  source: \<^verbatim>\<open>\*\*(.*?)\*\*\<close>, \<^verbatim>\<open>\*(.*?)\*\<close>, \<^verbatim>\<open>__(.*?)__\<close>, \<^verbatim>\<open>_(.*?)_\<close>,
  \<^verbatim>\<open>`(.*?)`\<close>, \<^verbatim>\<open>\[\[(.*?)\]\]\<close> and \<^verbatim>\<open>\[(.*?)\]\(.*?\)\<close>.
\<close>

definition clean_markdown :: "ObsidianQuoteDisplay \<Rightarrow> string \<Rightarrow> string" where
  "clean_markdown self text =
     (let text = re_sub (lit ''**'' @ [Grp (LazyStar Dot)] @ lit ''**'') [Backref 1] text;
          text = re_sub (lit ''*'' @ [Grp (LazyStar Dot)] @ lit ''*'') [Backref 1] text;
          text = re_sub (lit ''__'' @ [Grp (LazyStar Dot)] @ lit ''__'') [Backref 1] text;
          text = re_sub (lit ''_'' @ [Grp (LazyStar Dot)] @ lit ''_'') [Backref 1] text;
          text = re_sub (lit ''`'' @ [Grp (LazyStar Dot)] @ lit ''`'') [Backref 1] text;
          text = re_sub (lit ''[['' @ [Grp (LazyStar Dot)] @ lit '']]'') [Backref 1] text;
          text = re_sub (lit ''['' @ [Grp (LazyStar Dot)] @ lit ''](''
                         @ [LazyStar Dot] @ lit '')'') [Backref 1] text
      in text)"

subsection \<open>\<open>extract_paragraphs\<close>\<close>

text \<open>The built-in \<open>any\<close> on a list of booleans.\<close>

definition any :: "bool list \<Rightarrow> bool" where
  "any bs = list_ex (\<lambda>b. b) bs"

definition skip_conditions :: "string \<Rightarrow> bool list" where
  "skip_conditions line_stripped =
     [startswith line_stripped ''#'',
      line_stripped = [],
      startswith line_stripped ''```'',
      startswith line_stripped ''>'',
      startswith line_stripped ''- '',
      startswith line_stripped ''* '',
      startswith line_stripped ''1. '',
      startswith line_stripped ''![['',
      startswith line_stripped ''!rw-'',
      startswith line_stripped ''!['',
      line_stripped = ''---'',
      startswith line_stripped ''=='',
      startswith line_stripped ''%%'',
      startswith line_stripped ''<!--'',
      startswith line_stripped ''<'',
      (startswith line_stripped ''[['' \<and> endswith line_stripped '']]''
         \<and> length line_stripped < 50)]"

text \<open>The local variables that the loop of \<open>extract_paragraphs\<close> updates.\<close>

record extract_state =
  in_frontmatter :: bool
  paragraphs :: "string list"
  current_paragraph :: "string list"

text \<open>One pass through the body of the \<open>for\<close> loop, for the line \<open>line\<close> at index \<open>i\<close>.\<close>

definition loop_body ::
    "ObsidianQuoteDisplay \<Rightarrow> nat \<Rightarrow> string \<Rightarrow> extract_state \<Rightarrow> extract_state" where
  "loop_body self i line st =
     (let line_stripped = strip line in
      if i = 0 \<and> line_stripped = ''---'' then st\<lparr>in_frontmatter := True\<rparr>
      else if in_frontmatter st \<and> line_stripped = ''---'' then st\<lparr>in_frontmatter := False\<rparr>
      else if in_frontmatter st then st
      else if any (skip_conditions line_stripped) then
        (if current_paragraph st \<noteq> [] then
           (let paragraph_text = strip (join_space (current_paragraph st)) in
            if 100 < length paragraph_text
            then st\<lparr>paragraphs := paragraphs st @ [paragraph_text], current_paragraph := []\<rparr>
            else st\<lparr>current_paragraph := []\<rparr>)
         else st)
      else if line_stripped \<noteq> [] \<and> \<not> is_markup_only self line_stripped
        then st\<lparr>current_paragraph := current_paragraph st @ [line_stripped]\<rparr>
      else st)"

text \<open>The \<open>for\<close> loop over \<open>enumerate(lines)\<close>, from index \<open>i\<close> on.\<close>

fun lines_loop ::
    "ObsidianQuoteDisplay \<Rightarrow> nat \<Rightarrow> string list \<Rightarrow> extract_state \<Rightarrow> extract_state" where
  "lines_loop self i [] st = st"
| "lines_loop self i (line # lines) st = lines_loop self (Suc i) lines (loop_body self i line st)"

text \<open>The code behind the loop: the last paragraph, and the value returned.\<close>

definition last_paragraph :: "extract_state \<Rightarrow> string list" where
  "last_paragraph st =
     (if current_paragraph st \<noteq> [] then
        (let paragraph_text = strip (join_space (current_paragraph st)) in
         if 100 < length paragraph_text then paragraphs st @ [paragraph_text]
         else paragraphs st)
      else paragraphs st)"

definition extract_paragraphs :: "ObsidianQuoteDisplay \<Rightarrow> string \<Rightarrow> string list" where
  "extract_paragraphs self content =
     (let lines = split_newline content;
          st = lines_loop self 0 lines
                 \<lparr>in_frontmatter = False, paragraphs = [], current_paragraph = []\<rparr>
      in last_paragraph st)"

subsection \<open>\<open>get_obsidian_uri\<close>\<close>

text \<open>
  A \<open>pathlib.Path\<close>, as the three things the program reads from it: \<open>str(p)\<close>,
  \<open>str(p.absolute())\<close> and \<open>p.name\<close>.
\<close>

record Path =
  path_str :: string
  path_absolute :: string
  path_name :: string

text \<open>The UTF-8 encoding of a code point below 256, as a list of bytes.\<close>

definition utf8_encode :: "char \<Rightarrow> nat list" where
  "utf8_encode c = (let n = code_point c in
     if n < 128 then [n] else [192 + n div 64, 128 + n mod 64])"

text \<open>
  \<open>urllib.parse.quote(string, safe)\<close>: the string is encoded to UTF-8; a byte that is an
  ASCII letter, a digit, one of \<open>_.-~\<close> or a character of \<open>safe\<close> is kept, and every other
  byte becomes \<open>%XX\<close> with upper-case hexadecimal digits.
\<close>

definition always_safe :: string where
  "always_safe =
     ''ABCDEFGHIJKLMNOPQRSTUVWXYZabcdefghijklmnopqrstuvwxyz0123456789_.-~''"

definition hex_digit :: "nat \<Rightarrow> char" where
  "hex_digit d = ''0123456789ABCDEF'' ! (d mod 16)"

definition quote_byte :: "string \<Rightarrow> nat \<Rightarrow> string" where
  "quote_byte safe b =
     (if b < 128 \<and> char_of b \<in> set (always_safe @ safe) then [char_of b]
      else [CHR ''%'', hex_digit (b div 16), hex_digit (b mod 16)])"

definition quote :: "string \<Rightarrow> string \<Rightarrow> string" where
  "quote s safe = concat (map (quote_byte safe) (concat (map utf8_encode s)))"

text \<open>
  The call \<open>urllib.parse.quote(absolute_path)\<close> has the default \<open>safe='/'\<close>. The
  statements of the source behind the \<open>return\<close> are never reached.
\<close>

definition get_obsidian_uri :: "ObsidianQuoteDisplay \<Rightarrow> Path \<Rightarrow> string" where
  "get_obsidian_uri self file_path =
     (let absolute_path = path_absolute file_path;
          encoded_path = quote absolute_path ''/''
      in ''obsidian://open?path='' @ encoded_path)"

subsection \<open>\<open>get_random_quote\<close>\<close>

text \<open>
  What the method reads from outside: the listing of the directory
  (\<open>get_markdown_files\<close>), the result of opening and reading a file as UTF-8, which is the
  content or an exception, and the numbers that the random generator hands out.
\<close>

datatype py_exception = OSError string | UnicodeDecodeError string

fun exception_str :: "py_exception \<Rightarrow> string" where
  "exception_str (OSError m) = m"
| "exception_str (UnicodeDecodeError m) = m"

record world =
  glob_md :: "string \<Rightarrow> Path list"
  read_file :: "Path \<Rightarrow> py_exception + string"
  random_source :: "nat \<Rightarrow> nat"

text \<open>
  What the method does to the outside: it draws random numbers, opens files and prints.
\<close>

record io =
  draws :: nat
  opened :: "Path list"
  stdout :: "string list"

definition get_markdown_files :: "ObsidianQuoteDisplay \<Rightarrow> world \<Rightarrow> Path list" where
  "get_markdown_files self w = glob_md w (books_directory self)"

text \<open>\<open>random.choice(xs)\<close> on a non-empty list: one draw, and the element at that index.\<close>

definition random_choice :: "world \<Rightarrow> 'a list \<Rightarrow> io \<Rightarrow> 'a \<times> io" where
  "random_choice w xs s =
     (xs ! (random_source w (draws s) mod length xs), s\<lparr>draws := Suc (draws s)\<rparr>)"

text \<open>
  The value returned: one of the two messages, or the dictionary with the keys
  \<open>quote\<close>, \<open>book\<close>, \<open>file\<close> and \<open>obsidian_link\<close>.
\<close>

record quote_dict =
  dict_quote :: string
  dict_book :: string
  dict_file :: string
  dict_obsidian_link :: string

datatype quote_result = Message string | Quote quote_dict

text \<open>The \<open>while attempts < 10\<close> loop, with the \<open>try\<close> block in its body.\<close>

function quote_loop ::
    "ObsidianQuoteDisplay \<Rightarrow> world \<Rightarrow> Path list \<Rightarrow> nat \<Rightarrow> io \<Rightarrow> quote_result \<times> io" where
  "quote_loop self w markdown_files attempts s =
     (if attempts < 10 then
        (case random_choice w markdown_files s of (random_file, s) \<Rightarrow>
           (case read_file w random_file of
              Inl e \<Rightarrow>
                quote_loop self w markdown_files (attempts + 1)
                  (s\<lparr>opened := opened s @ [random_file],
                     stdout := stdout s @
                       [''Error reading '' @ path_str random_file @ '': '' @ exception_str e]\<rparr>)
            | Inr content \<Rightarrow>
                (let s = s\<lparr>opened := opened s @ [random_file]\<rparr>;
                     book_title = extract_book_title self content;
                     paragraphs = extract_paragraphs self content
                 in if paragraphs \<noteq> [] then
                      (case random_choice w paragraphs s of (random_paragraph, s) \<Rightarrow>
                         (let clean_paragraph = clean_markdown self random_paragraph;
                              obsidian_uri = get_obsidian_uri self random_file
                          in (Quote \<lparr>dict_quote = clean_paragraph, dict_book = book_title,
                                     dict_file = path_name random_file,
                                     dict_obsidian_link = obsidian_uri\<rparr>, s)))
                    else quote_loop self w markdown_files (attempts + 1) s)))
      else (Message ''No suitable content found in your book notes.'', s))"
  by pat_completeness auto
termination
  by (relation "measure (\<lambda>(self, w, markdown_files, attempts, s). 10 - attempts)") auto

declare quote_loop.simps [simp del]

definition get_random_quote :: "ObsidianQuoteDisplay \<Rightarrow> world \<Rightarrow> io \<Rightarrow> quote_result \<times> io" where
  "get_random_quote self w s =
     (let markdown_files = get_markdown_files self w in
      if markdown_files = [] then (Message ''No markdown files found in the Books directory!'', s)
      else quote_loop self w markdown_files 0 s)"

section \<open>Notions used in the statements\<close>

text \<open>The local variables of \<open>extract_paragraphs\<close> before the loop, and after the loop has
  gone through the lines \<open>lines\<close> from index 0.\<close>

definition initial_state :: extract_state where
  "initial_state = \<lparr>in_frontmatter = False, paragraphs = [], current_paragraph = []\<rparr>"

definition state_after :: "ObsidianQuoteDisplay \<Rightarrow> string list \<Rightarrow> extract_state" where
  "state_after self lines = lines_loop self 0 lines initial_state"

text \<open>What every returned paragraph satisfies.\<close>

definition well_formed :: "string \<Rightarrow> bool" where
  "well_formed p =
     (100 < length p \<and> \<not> isspace (hd p) \<and> \<not> isspace (last p) \<and> CHR ''\<newline>'' \<notin> set p)"

definition state_ok :: "extract_state \<Rightarrow> bool" where
  "state_ok st =
     (list_all well_formed (paragraphs st)
      \<and> list_all (\<lambda>l. CHR ''\<newline>'' \<notin> set l) (current_paragraph st))"

text \<open>A node of a pattern that cannot match without taking a character.\<close>

fun takes_char :: "re_node \<Rightarrow> bool" where
  "takes_char (One cs) = True"
| "takes_char (Plus cs) = True"
| "takes_char (Rep cs m n) = (0 < m)"
| "takes_char (Grp n) = takes_char n"
| "takes_char n = False"




text \<open>
  Follows the spec's words: standard URI component encoding. Every byte of the UTF-8
  encoding becomes \<open>%XX\<close>, but for the unreserved characters of RFC 3986 (letters, digits
  and \<open>-._~\<close>); so every reserved character, \<open>/\<close> among them, is percent-encoded.
\<close>

definition unreserved :: string where
  "unreserved = ''ABCDEFGHIJKLMNOPQRSTUVWXYZabcdefghijklmnopqrstuvwxyz0123456789-._~''"

definition uri_component_encode :: "string \<Rightarrow> string" where
  "uri_component_encode s =
     concat (map (\<lambda>b. if b < 128 \<and> char_of b \<in> set unreserved then [char_of b]
                       else [CHR ''%'', hex_digit (b div 16), hex_digit (b mod 16)])
               (concat (map utf8_encode s)))"

text \<open>
  The file that \<open>random.choice(markdown_files)\<close> returns at the draw number \<open>d\<close>, and an
  attempt on a file that ends without a quote: the file cannot be read, or it has no
  paragraph.
\<close>

definition chosen_file :: "world \<Rightarrow> Path list \<Rightarrow> nat \<Rightarrow> Path" where
  "chosen_file w markdown_files d =
     markdown_files ! (random_source w d mod length markdown_files)"

definition yields_nothing :: "ObsidianQuoteDisplay \<Rightarrow> world \<Rightarrow> Path \<Rightarrow> bool" where
  "yields_nothing self w f =
     (case read_file w f of
        Inl e \<Rightarrow> True
      | Inr content \<Rightarrow> extract_paragraphs self content = [])"

subsection \<open>Example documents\<close>

definition example_display :: ObsidianQuoteDisplay where
  "example_display = \<lparr>books_directory = ''/notes/Books''\<rparr>"

definition prose_100 :: string where
  "prose_100 = ''A library is a room full of people who are waiting politely for someone to ask them what they think.''"

definition prose_101 :: string where
  "prose_101 = ''Reading a good book is a conversation with a mind that took many long years to say one thing so well.''"


definition prose_105 :: string where
  "prose_105 = ''The margin of a page is the place where a reader answers back, and the pencil marks are half of the book.''"

definition wiki_link_line :: string where
  "wiki_link_line = ''[[A note with a very long title that runs past fifty characters]]''"

definition first_half :: string where
  "first_half = ''Books are kept on the shelf for the days when company is wanted,''"

definition second_half :: string where
  "second_half = ''and they never mind being put down again in the middle of a page.''"



definition walden_path :: Path where
  "walden_path = \<lparr>path_str = ''/notes/Books/Walden Pond.md'',
                   path_absolute = ''/notes/Books/Walden Pond.md'',
                   path_name = ''Walden Pond.md''\<rparr>"

text \<open>Directories: an empty one, and three that hold the one file \<open>Walden Pond.md\<close>, with
  a paragraph of 101 characters, with a line of 100 characters, and unreadable.\<close>

definition empty_world :: world where
  "empty_world = \<lparr>glob_md = (\<lambda>d. []),
                   read_file = (\<lambda>f. Inl (OSError ''No such file or directory'')),
                   random_source = (\<lambda>n. n)\<rparr>"


definition short_notes_world :: world where
  "short_notes_world = \<lparr>glob_md = (\<lambda>d. if d = ''/notes/Books'' then [walden_path] else []),
                         read_file = (\<lambda>f. Inr prose_100),
                         random_source = (\<lambda>n. 3 * n + 1)\<rparr>"

definition unreadable_world :: world where
  "unreadable_world = \<lparr>glob_md = (\<lambda>d. if d = ''/notes/Books'' then [walden_path] else []),
                        read_file = (\<lambda>f. Inl (UnicodeDecodeError ''invalid start byte'')),
                        random_source = (\<lambda>n. 3 * n + 1)\<rparr>"

definition fresh_io :: io where
  "fresh_io = \<lparr>draws = 0, opened = [], stdout = []\<rparr>"

section \<open>Lemmas\<close>

subsection \<open>Matches\<close>

text \<open>A match splits the subject into the texts of the nodes and the rest.\<close>

lemma re_match_split:
  "re_match b p s = Some (gs, t) \<Longrightarrow> length gs = length p \<and> concat gs @ t = s"
proof (induction b p s arbitrary: gs t rule: re_match.induct)
  case (1 b s)
  then show ?case by simp
next
  case (2 b cs r s)
  then obtain x xs gs' where s: "s = x # xs" and m: "re_match False r xs = Some (gs', t)"
    and gs: "gs = [x] # gs'" and "in_cset cs x"
    by (cases s) (auto split: if_splits)
  from "2.IH"[OF s \<open>in_cset cs x\<close> m] show ?case using s gs by simp
next
  case (3 b cs r s)
  show ?case
  proof (cases "re_match b r s")
    case (Some res)
    then obtain gs' where "re_match b r s = Some (gs', t)" and "gs = [] # gs'"
      using "3.prems" by (cases res) auto
    with "3.IH"(1) show ?thesis by simp
  next
    case None
    then obtain x xs gs' where s: "s = x # xs" and c: "in_cset cs x"
      and m: "re_match False (LazyStar cs # r) xs = Some (gs', t)"
      and gs: "gs = (x # hd gs') # tl gs'"
      using "3.prems" by (cases s) (auto split: if_splits)
    from "3.IH"(2)[OF None s c m] have "length gs' = Suc (length r)" "concat gs' @ t = xs"
      by simp_all
    then show ?thesis using s gs by (cases gs') auto
  qed
next
  case (4 b cs r s)
  let ?inner = "(case s of [] \<Rightarrow> None
            | x # xs \<Rightarrow>
                if in_cset cs x
                then map_option (\<lambda>(gs, t). ((x # hd gs) # tl gs, t))
                       (re_match False (Star cs # r) xs)
                else None)"
  have prem: "(case ?inner of Some res \<Rightarrow> Some res
               | None \<Rightarrow> map_option (\<lambda>(gs, t). ([] # gs, t)) (re_match b r s)) = Some (gs, t)"
    using "4.prems" by (simp only: re_match.simps(4)[of b cs r s])
  show ?case
  proof (cases ?inner)
    case (Some res)
    then have res: "?inner = Some (gs, t)" using prem by simp
    then obtain x xs gs' where s: "s = x # xs" and c: "in_cset cs x"
      and m: "re_match False (Star cs # r) xs = Some (gs', t)"
      and gs: "gs = (x # hd gs') # tl gs'"
      by (cases s) (auto simp del: re_match.simps split: if_splits)
    from "4.IH"(1)[OF s c m] have "length gs' = Suc (length r)" "concat gs' @ t = xs"
      by simp_all
    then show ?thesis using s gs by (cases gs') auto
  next
    case None
    then obtain gs' where "re_match b r s = Some (gs', t)" and "gs = [] # gs'"
      using prem by (auto simp del: re_match.simps)
    with "4.IH"(2)[OF None] show ?thesis by simp
  qed
next
  case (5 b cs r s)
  then obtain x xs gs' where s: "s = x # xs" and c: "in_cset cs x"
    and m: "re_match False (Star cs # r) xs = Some (gs', t)"
    and gs: "gs = (x # hd gs') # tl gs'"
    by (cases s) (auto split: if_splits)
  from "5.IH"[OF s c m] have "length gs' = Suc (length r)" "concat gs' @ t = xs"
    by simp_all
  then show ?case using s gs by (cases gs') auto
next
  case (6 b cs m n r s)
  let ?inner = "(case s of [] \<Rightarrow> None
            | x # xs \<Rightarrow>
                if 0 < n \<and> in_cset cs x
                then map_option (\<lambda>(gs, t). ((x # hd gs) # tl gs, t))
                       (re_match False (Rep cs (m - 1) (n - 1) # r) xs)
                else None)"
  have prem: "(case ?inner of Some res \<Rightarrow> Some res
               | None \<Rightarrow> if m = 0 then map_option (\<lambda>(gs, t). ([] # gs, t)) (re_match b r s)
                          else None) = Some (gs, t)"
    using "6.prems" by (simp only: re_match.simps(6)[of b cs m n r s])
  show ?case
  proof (cases ?inner)
    case (Some res)
    then have res: "?inner = Some (gs, t)" using prem by simp
    then obtain x xs gs' where s: "s = x # xs" and c: "0 < n \<and> in_cset cs x"
      and mt: "re_match False (Rep cs (m - 1) (n - 1) # r) xs = Some (gs', t)"
      and gs: "gs = (x # hd gs') # tl gs'"
      by (cases s) (auto simp del: re_match.simps split: if_splits)
    from "6.IH"(1)[OF s c mt] have "length gs' = Suc (length r)" "concat gs' @ t = xs"
      by simp_all
    then show ?thesis using s gs by (cases gs') auto
  next
    case None
    then obtain gs' where m0: "m = 0" and "re_match b r s = Some (gs', t)" and "gs = [] # gs'"
      using prem by (auto simp del: re_match.simps split: if_splits)
    with "6.IH"(2)[OF None m0] show ?thesis by simp
  qed
next
  case (7 b r s)
  then obtain gs' where "b" and "re_match b r s = Some (gs', t)" and "gs = [] # gs'"
    by (auto split: if_splits)
  with "7.IH" show ?case by simp
next
  case (8 b r s)
  then obtain gs' where c: "s = [] \<or> s = [CHR ''\<newline>'']"
    and "re_match b r s = Some (gs', t)" and "gs = [] # gs'"
    by (auto split: if_splits)
  with "8.IH"[OF c] show ?case by simp
next
  case (9 b n r s)
  then show ?case by simp
qed

text \<open>A pattern with a node that takes a character never matches the empty string.\<close>

lemma re_match_nonempty:
  "re_match b p s = Some (gs, t) \<Longrightarrow> list_ex takes_char p \<Longrightarrow> concat gs \<noteq> []"
proof (induction b p s arbitrary: gs t rule: re_match.induct)
  case (1 b s)
  then show ?case by simp
next
  case (2 b cs r s)
  then obtain x gs' where "gs = [x] # gs'"
    by (cases s) (auto split: if_splits)
  then show ?case by simp
next
  case (3 b cs r s)
  show ?case
  proof (cases "re_match b r s")
    case (Some res)
    then obtain gs' where m: "re_match b r s = Some (gs', t)" and gs: "gs = [] # gs'"
      using "3.prems" by (cases res) auto
    from "3.IH"(1)[OF m] "3.prems"(2) show ?thesis using gs by simp
  next
    case None
    have "(case re_match b r s of
             Some (gs, t) \<Rightarrow> Some ([] # gs, t)
           | None \<Rightarrow>
               (case s of
                  [] \<Rightarrow> None
                | x # xs \<Rightarrow>
                    if in_cset cs x
                    then map_option (\<lambda>(gs, t). ((x # hd gs) # tl gs, t))
                           (re_match False (LazyStar cs # r) xs)
                    else None)) = Some (gs, t)"
      using "3.prems"(1) by (simp only: re_match.simps(3)[of b cs r s])
    then obtain x gs' where "gs = (x # hd gs') # tl gs'"
      using None by (cases s) (auto simp del: re_match.simps split: if_splits)
    then show ?thesis by simp
  qed
next
  case (4 b cs r s)
  let ?inner = "(case s of [] \<Rightarrow> None
            | x # xs \<Rightarrow>
                if in_cset cs x
                then map_option (\<lambda>(gs, t). ((x # hd gs) # tl gs, t))
                       (re_match False (Star cs # r) xs)
                else None)"
  have prem: "(case ?inner of Some res \<Rightarrow> Some res
               | None \<Rightarrow> map_option (\<lambda>(gs, t). ([] # gs, t)) (re_match b r s)) = Some (gs, t)"
    using "4.prems" by (simp only: re_match.simps(4)[of b cs r s])
  show ?case
  proof (cases ?inner)
    case (Some res)
    then have "?inner = Some (gs, t)" using prem by simp
    then obtain x gs' where "gs = (x # hd gs') # tl gs'"
      by (cases s) (auto simp del: re_match.simps split: if_splits)
    then show ?thesis by simp
  next
    case None
    then obtain gs' where m: "re_match b r s = Some (gs', t)" and gs: "gs = [] # gs'"
      using prem by (auto simp del: re_match.simps)
    from "4.IH"(2)[OF None m] "4.prems"(2) show ?thesis using gs by simp
  qed
next
  case (5 b cs r s)
  then obtain x gs' where "gs = (x # hd gs') # tl gs'"
    by (cases s) (auto simp del: re_match.simps(4) split: if_splits)
  then show ?case by simp
next
  case (6 b cs m n r s)
  let ?inner = "(case s of [] \<Rightarrow> None
            | x # xs \<Rightarrow>
                if 0 < n \<and> in_cset cs x
                then map_option (\<lambda>(gs, t). ((x # hd gs) # tl gs, t))
                       (re_match False (Rep cs (m - 1) (n - 1) # r) xs)
                else None)"
  have prem: "(case ?inner of Some res \<Rightarrow> Some res
               | None \<Rightarrow> if m = 0 then map_option (\<lambda>(gs, t). ([] # gs, t)) (re_match b r s)
                          else None) = Some (gs, t)"
    using "6.prems" by (simp only: re_match.simps(6)[of b cs m n r s])
  show ?case
  proof (cases ?inner)
    case (Some res)
    then have "?inner = Some (gs, t)" using prem by simp
    then obtain x gs' where "gs = (x # hd gs') # tl gs'"
      by (cases s) (auto simp del: re_match.simps split: if_splits)
    then show ?thesis by simp
  next
    case None
    then obtain gs' where m0: "m = 0" and m: "re_match b r s = Some (gs', t)"
      and gs: "gs = [] # gs'"
      using prem by (auto simp del: re_match.simps split: if_splits)
    from "6.IH"(2)[OF None m0 m] "6.prems"(2) m0 show ?thesis using gs by simp
  qed
next
  case (7 b r s)
  then obtain gs' where b: "b" and m: "re_match b r s = Some (gs', t)" and gs: "gs = [] # gs'"
    by (auto split: if_splits)
  from "7.IH"[OF b m] "7.prems"(2) show ?case using gs by simp
next
  case (8 b r s)
  then obtain gs' where c: "s = [] \<or> s = [CHR ''\<newline>'']"
    and m: "re_match b r s = Some (gs', t)" and gs: "gs = [] # gs'"
    by (auto split: if_splits)
  from "8.IH"[OF c m] "8.prems"(2) show ?case using gs by simp
next
  case (9 b n r s)
  then show ?case by simp
qed

text \<open>So \<open>re_sub_scan\<close> never takes its branch for an empty match on such a pattern.\<close>

lemma re_sub_scan_match:
  "re_match b p (x # xs) = Some (gs, rest) \<Longrightarrow> list_ex takes_char p \<Longrightarrow>
   re_sub_scan p t 0 b (x # xs)
     = expand t (groups p gs) @ re_sub_scan p t (length (concat gs) - 1) False xs"
  using re_match_nonempty[of b p "x # xs" gs rest]
  by (cases "concat gs") simp_all

text \<open>Every pattern of the program has such a node.\<close>

lemma program_patterns_take_char:
  "list_all (list_ex takes_char)
     [lit ''![['' @ [LazyStar Dot] @ lit '']]'',
      lit ''!rw-'' @ [Plus Word],
      lit ''[['' @ [LazyStar Dot] @ lit '']]'',
      lit ''['' @ [LazyStar Dot] @ lit '']('' @ [LazyStar Dot] @ lit '')'',
      lit ''`'' @ [LazyStar Dot] @ lit ''`'',
      lit ''**'' @ [LazyStar Dot] @ lit ''**'',
      lit ''*'' @ [LazyStar Dot] @ lit ''*'',
      lit ''=='' @ [LazyStar Dot] @ lit ''=='',
      lit ''%%'' @ [LazyStar Dot] @ lit ''%%'',
      lit ''<!--'' @ [LazyStar Dot] @ lit ''-->'',
      lit ''<'' @ [LazyStar Dot] @ lit ''>'',
      [Rep (Chr CHR ''#'') 1 6, Star Space],
      [Bol] @ lit ''>'' @ [Star Space],
      [Bol, One (OneOf ''-*+''), Star Space],
      [Bol, Plus Digit] @ lit ''.'' @ [Star Space],
      [Bol] @ lit ''--'' @ [Plus (Chr CHR ''-''), Eol],
      lit ''**'' @ [Grp (LazyStar Dot)] @ lit ''**'',
      lit ''*'' @ [Grp (LazyStar Dot)] @ lit ''*'',
      lit ''__'' @ [Grp (LazyStar Dot)] @ lit ''__'',
      lit ''_'' @ [Grp (LazyStar Dot)] @ lit ''_'',
      lit ''`'' @ [Grp (LazyStar Dot)] @ lit ''`'',
      lit ''[['' @ [Grp (LazyStar Dot)] @ lit '']]'',
      lit ''['' @ [Grp (LazyStar Dot)] @ lit '']('' @ [LazyStar Dot] @ lit '')'']"
  by (simp add: lit_def)

subsection \<open>Strings and the loop of \<open>extract_paragraphs\<close>\<close>

lemma extract_paragraphs_state_after:
  "extract_paragraphs self content = last_paragraph (state_after self (split_newline content))"
  by (simp add: extract_paragraphs_def state_after_def initial_state_def)

lemma split_newline_not_Nil: "split_newline s \<noteq> []"
  by (induction s) (auto split: list.splits)

lemma split_newline_no_newline: "l \<in> set (split_newline s) \<Longrightarrow> CHR ''\<newline>'' \<notin> set l"
  by (induction s arbitrary: l) (auto split: if_splits list.splits)

lemma set_strip: "set (strip s) \<subseteq> set s"
proof -
  have "set (strip s) = set (dropWhile isspace (rev (dropWhile isspace s)))"
    by (simp add: strip_def)
  also have "\<dots> \<subseteq> set (rev (dropWhile isspace s))"
    by (meson set_dropWhileD subsetI)
  also have "\<dots> \<subseteq> set s"
    by (metis set_dropWhileD set_rev subsetI)
  finally show ?thesis .
qed

lemma strip_last: "strip s \<noteq> [] \<Longrightarrow> \<not> isspace (last (strip s))"
proof -
  assume ne: "strip s \<noteq> []"
  let ?d = "dropWhile isspace (rev (dropWhile isspace s))"
  from ne have "?d \<noteq> []" by (simp add: strip_def)
  then have "\<not> isspace (hd ?d)" by (rule hd_dropWhile)
  moreover have "last (strip s) = hd ?d" using \<open>?d \<noteq> []\<close> by (simp add: strip_def last_rev)
  ultimately show ?thesis by simp
qed

lemma strip_hd: "strip s \<noteq> [] \<Longrightarrow> \<not> isspace (hd (strip s))"
proof -
  assume ne: "strip s \<noteq> []"
  let ?t = "dropWhile isspace s"
  have tne: "?t \<noteq> []" using ne by (metis strip_def dropWhile.simps(1) rev.simps(1))
  then have h: "\<not> isspace (hd ?t)" by (rule hd_dropWhile)
  obtain x xs where t: "?t = x # xs" using tne by (cases ?t) auto
  have nx: "\<not> isspace x" using h t by simp
  have "dropWhile isspace (rev xs @ [x]) = dropWhile isspace (rev xs) @ [x]"
    using nx by (simp add: dropWhile_append3)
  then have "strip s = x # rev (dropWhile isspace (rev xs))"
    using t by (simp add: strip_def)
  then show ?thesis using nx by simp
qed

lemma set_join_space: "set (join_space xs) \<subseteq> (\<Union>x\<in>set xs. set x) \<union> {CHR '' ''}"
  by (induction xs rule: join_space.induct) auto

lemma loop_body_index: "0 < i \<Longrightarrow> 0 < j \<Longrightarrow> loop_body self i l st = loop_body self j l st"
  by (simp add: loop_body_def Let_def)

lemma lines_loop_index: "0 < i \<Longrightarrow> 0 < j \<Longrightarrow> lines_loop self i ls st = lines_loop self j ls st"
proof (induction ls arbitrary: i j st)
  case Nil
  then show ?case by simp
next
  case (Cons l ls)
  have "lines_loop self (Suc i) ls (loop_body self i l st) = lines_loop self (Suc j) ls (loop_body self i l st)"
    by (rule Cons.IH) simp_all
  then show ?case using Cons.prems by (simp add: loop_body_index[of i j])
qed

lemma lines_loop_append:
  "lines_loop self i (xs @ ys) st = lines_loop self (i + length xs) ys (lines_loop self i xs st)"
  by (induction xs arbitrary: i st) simp_all

lemma any_skip_dashes: "any (skip_conditions ''---'')"
  by (simp add: any_def skip_conditions_def)

lemma any_skip_empty: "any (skip_conditions [])"
  by (simp add: any_def skip_conditions_def)

lemma loop_body_in_frontmatter:
  "in_frontmatter st \<Longrightarrow> strip l \<noteq> ''---'' \<Longrightarrow> loop_body self i l st = st"
  by (simp add: loop_body_def Let_def)

lemma lines_loop_in_frontmatter:
  "in_frontmatter st \<Longrightarrow> list_all (\<lambda>l. strip l \<noteq> ''---'') ls \<Longrightarrow> lines_loop self i ls st = st"
  by (induction ls arbitrary: i) (simp_all add: loop_body_in_frontmatter)

lemma loop_body_markup_only:
  "\<not> any (skip_conditions (strip l)) \<Longrightarrow> is_markup_only self (strip l) \<Longrightarrow> loop_body self i l st = st"
  using any_skip_dashes by (auto simp add: loop_body_def Let_def)

lemma loop_body_not_skippable:
  "\<not> any (skip_conditions (strip l)) \<Longrightarrow> paragraphs (loop_body self i l st) = paragraphs st"
  using any_skip_dashes by (auto simp add: loop_body_def Let_def)

text \<open>Inside frontmatter, and before the first line, the buffer is empty.\<close>

lemma loop_body_buffer_empty:
  "(in_frontmatter st \<or> i = 0 \<longrightarrow> current_paragraph st = []) \<Longrightarrow>
   (in_frontmatter (loop_body self i l st) \<longrightarrow> current_paragraph (loop_body self i l st) = [])"
  by (auto simp add: loop_body_def Let_def)

lemma lines_loop_buffer_empty:
  "(in_frontmatter st \<or> i = 0 \<longrightarrow> current_paragraph st = []) \<Longrightarrow>
   (in_frontmatter (lines_loop self i ls st) \<or> i + length ls = 0
      \<longrightarrow> current_paragraph (lines_loop self i ls st) = [])"
proof (induction ls arbitrary: i st)
  case Nil
  then show ?case by simp
next
  case (Cons l ls)
  have "in_frontmatter (loop_body self i l st) \<or> Suc i = 0
          \<longrightarrow> current_paragraph (loop_body self i l st) = []"
    using loop_body_buffer_empty[OF Cons.prems] by simp
  from Cons.IH[OF this] show ?case by simp
qed

lemma state_after_buffer_empty:
  "in_frontmatter (state_after self pre) \<or> length pre = 0
     \<longrightarrow> current_paragraph (state_after self pre) = []"
  using lines_loop_buffer_empty[of initial_state 0 self pre]
  by (simp add: state_after_def initial_state_def)

lemma state_after_snoc:
  "state_after self (pre @ [l]) = loop_body self (length pre) l (state_after self pre)"
  by (simp add: state_after_def lines_loop_append)

lemma state_after_append:
  "state_after self (pre @ post) = lines_loop self (length pre) post (state_after self pre)"
  by (simp add: state_after_def lines_loop_append)

subsection \<open>The invariant of the returned paragraphs\<close>

lemma paragraph_text_well_formed:
  assumes "\<forall>l\<in>set cur. CHR ''\<newline>'' \<notin> set l" and "100 < length (strip (join_space cur))"
  shows "well_formed (strip (join_space cur))"
proof -
  let ?p = "strip (join_space cur)"
  have ne: "?p \<noteq> []" using assms(2) by auto
  have "set ?p \<subseteq> (\<Union>x\<in>set cur. set x) \<union> {CHR '' ''}"
    using set_strip set_join_space by blast
  then have "CHR ''\<newline>'' \<notin> set ?p" using assms(1) by auto
  then show ?thesis using assms(2) strip_hd[OF ne] strip_last[OF ne]
    by (simp add: well_formed_def)
qed

lemma loop_body_state_ok:
  assumes "CHR ''\<newline>'' \<notin> set l" and "state_ok st"
  shows "state_ok (loop_body self i l st)"
proof -
  have l: "CHR ''\<newline>'' \<notin> set (strip l)" using assms(1) set_strip by blast
  have cur: "\<forall>x\<in>set (current_paragraph st). CHR ''\<newline>'' \<notin> set x"
    using assms(2) by (simp add: state_ok_def list_all_iff)
  show ?thesis
    using assms(2) l paragraph_text_well_formed[OF cur]
    by (auto simp add: loop_body_def Let_def state_ok_def)
qed

lemma lines_loop_state_ok:
  "list_all (\<lambda>l. CHR ''\<newline>'' \<notin> set l) ls \<Longrightarrow> state_ok st \<Longrightarrow> state_ok (lines_loop self i ls st)"
  by (induction ls arbitrary: i st) (simp_all add: loop_body_state_ok)

lemma last_paragraph_well_formed:
  assumes "state_ok st"
  shows "list_all well_formed (last_paragraph st)"
proof -
  have cur: "\<forall>x\<in>set (current_paragraph st). CHR ''\<newline>'' \<notin> set x"
    using assms by (simp add: state_ok_def list_all_iff)
  show ?thesis
    using assms paragraph_text_well_formed[OF cur]
    by (auto simp add: last_paragraph_def Let_def state_ok_def)
qed

lemma extract_paragraphs_well_formed: "list_all well_formed (extract_paragraphs self content)"
proof -
  have "list_all (\<lambda>l. CHR ''\<newline>'' \<notin> set l) (split_newline content)"
    by (simp add: list_all_iff split_newline_no_newline)
  moreover have "state_ok initial_state"
    by (simp add: state_ok_def initial_state_def)
  ultimately have "state_ok (state_after self (split_newline content))"
    unfolding state_after_def by (rule lines_loop_state_ok)
  then show ?thesis
    by (simp add: extract_paragraphs_state_after last_paragraph_well_formed)
qed


subsection \<open>The title, the link and the selection loop\<close>



lemma char_of_code_point: "char_of (code_point c) = c"
  by (simp add: code_point_def)

lemma quote_Cons:
  "quote (c # s) safe = concat (map (quote_byte safe) (utf8_encode c)) @ quote s safe"
  by (simp add: quote_def)

lemma quote_char:
  "concat (map (quote_byte ''/'') (utf8_encode c))
     = (if c = CHR ''/'' then ''/'' else uri_component_encode [c])"
proof (cases "c = CHR ''/''")
  case True
  then have cp: "code_point c = 47" by (simp add: code_point_def)
  then have "char_of (47::nat) = c" using char_of_code_point[of c] by simp
  then show ?thesis using True cp by (simp add: utf8_encode_def quote_byte_def)
next
  case False
  have safe: "char_of (code_point c) \<in> set (always_safe @ ''/'')
                \<longleftrightarrow> char_of (code_point c) \<in> set unreserved"
    using False by (auto simp add: char_of_code_point always_safe_def unreserved_def)
  show ?thesis
    using False safe
    by (simp add: utf8_encode_def uri_component_encode_def quote_byte_def Let_def)
qed

lemma quote_slash:
  "quote s ''/'' = concat (map (\<lambda>c. if c = CHR ''/'' then ''/'' else uri_component_encode [c]) s)"
proof (induction s)
  case Nil
  show ?case by (simp add: quote_def)
next
  case (Cons c s)
  show ?case by (simp only: quote_Cons quote_char Cons.IH list.map concat.simps)
qed




lemma random_choice_file:
  "random_choice w fs s = (chosen_file w fs (draws s), s\<lparr>draws := Suc (draws s)\<rparr>)"
  by (simp add: random_choice_def chosen_file_def)

lemma quote_loop_done:
  "\<not> attempts < 10 \<Longrightarrow>
   quote_loop self w fs attempts s = (Message ''No suitable content found in your book notes.'', s)"
  by (subst quote_loop.simps) simp

lemma quote_loop_error:
  "attempts < 10 \<Longrightarrow> read_file w (chosen_file w fs (draws s)) = Inl e \<Longrightarrow>
   quote_loop self w fs attempts s
     = quote_loop self w fs (attempts + 1)
         (s\<lparr>draws := Suc (draws s),
            opened := opened s @ [chosen_file w fs (draws s)],
            stdout := stdout s @
              [''Error reading '' @ path_str (chosen_file w fs (draws s)) @ '': ''
                 @ exception_str e]\<rparr>)"
  by (subst quote_loop.simps) (simp add: random_choice_file)

lemma quote_loop_empty:
  "attempts < 10 \<Longrightarrow> read_file w (chosen_file w fs (draws s)) = Inr content \<Longrightarrow>
   extract_paragraphs self content = [] \<Longrightarrow>
   quote_loop self w fs attempts s
     = quote_loop self w fs (attempts + 1)
         (s\<lparr>draws := Suc (draws s), opened := opened s @ [chosen_file w fs (draws s)]\<rparr>)"
  by (subst quote_loop.simps) (simp add: random_choice_file)

lemma quote_loop_found:
  "attempts < 10 \<Longrightarrow> read_file w (chosen_file w fs (draws s)) = Inr content \<Longrightarrow>
   extract_paragraphs self content \<noteq> [] \<Longrightarrow>
   quote_loop self w fs attempts s
     = (Quote \<lparr>dict_quote =
                  clean_markdown self
                    (extract_paragraphs self content
                       ! (random_source w (Suc (draws s)) mod length (extract_paragraphs self content))),
                dict_book = extract_book_title self content,
                dict_file = path_name (chosen_file w fs (draws s)),
                dict_obsidian_link = get_obsidian_uri self (chosen_file w fs (draws s))\<rparr>,
        s\<lparr>draws := Suc (Suc (draws s)), opened := opened s @ [chosen_file w fs (draws s)]\<rparr>)"
  by (subst quote_loop.simps) (simp add: random_choice_file random_choice_def Let_def)

text \<open>Ten attempts without a quote: the loop ends with the message, after ten reads.\<close>

lemma quote_loop_nothing:
  "attempts \<le> 10 \<Longrightarrow>
   \<forall>k. attempts + k < 10 \<longrightarrow> yields_nothing self w (chosen_file w fs (draws s + k)) \<Longrightarrow>
   fst (quote_loop self w fs attempts s) = Message ''No suitable content found in your book notes.''
   \<and> length (opened (snd (quote_loop self w fs attempts s))) = length (opened s) + (10 - attempts)"
proof (induction "10 - attempts" arbitrary: attempts s)
  case 0
  then show ?case by (simp add: quote_loop_done)
next
  case (Suc n)
  then have lt: "attempts < 10" by simp
  have first: "yields_nothing self w (chosen_file w fs (draws s))"
    using Suc.prems(2) lt by (metis add.right_neutral)
  let ?f = "chosen_file w fs (draws s)"
  show ?case
  proof (cases "read_file w ?f")
    case (Inl e)
    let ?s = "s\<lparr>draws := Suc (draws s), opened := opened s @ [?f],
                 stdout := stdout s @ [''Error reading '' @ path_str ?f @ '': '' @ exception_str e]\<rparr>"
    have rest: "\<forall>k. (attempts + 1) + k < 10 \<longrightarrow> yields_nothing self w (chosen_file w fs (draws ?s + k))"
    proof (intro allI impI)
      fix k
      assume "(attempts + 1) + k < 10"
      then have "attempts + Suc k < 10" by simp
      then have "yields_nothing self w (chosen_file w fs (draws s + Suc k))"
        using Suc.prems(2) by blast
      then show "yields_nothing self w (chosen_file w fs (draws ?s + k))" by simp
    qed
    have "fst (quote_loop self w fs (attempts + 1) ?s) = Message ''No suitable content found in your book notes.''
      \<and> length (opened (snd (quote_loop self w fs (attempts + 1) ?s))) = length (opened ?s) + (10 - (attempts + 1))"
      using Suc.hyps(2) lt rest by (intro Suc.hyps(1)) simp_all
    then show ?thesis
      using lt by (simp add: quote_loop_error[OF lt Inl])
  next
    case (Inr content)
    then have empty: "extract_paragraphs self content = []"
      using first by (simp add: yields_nothing_def)
    let ?s = "s\<lparr>draws := Suc (draws s), opened := opened s @ [?f]\<rparr>"
    have rest: "\<forall>k. (attempts + 1) + k < 10 \<longrightarrow> yields_nothing self w (chosen_file w fs (draws ?s + k))"
    proof (intro allI impI)
      fix k
      assume "(attempts + 1) + k < 10"
      then have "attempts + Suc k < 10" by simp
      then have "yields_nothing self w (chosen_file w fs (draws s + Suc k))"
        using Suc.prems(2) by blast
      then show "yields_nothing self w (chosen_file w fs (draws ?s + k))" by simp
    qed
    have "fst (quote_loop self w fs (attempts + 1) ?s) = Message ''No suitable content found in your book notes.''
      \<and> length (opened (snd (quote_loop self w fs (attempts + 1) ?s))) = length (opened ?s) + (10 - (attempts + 1))"
      using Suc.hyps(2) lt rest by (intro Suc.hyps(1)) simp_all
    then show ?thesis
      using lt by (simp add: quote_loop_empty[OF lt Inr empty])
  qed
qed

text \<open>Whatever the files are, the loop ends with the message or with a quote.\<close>

lemma quote_loop_outcome:
  "(case fst (quote_loop self w fs attempts s) of
      Message m \<Rightarrow> m = ''No suitable content found in your book notes.''
    | Quote q \<Rightarrow> True)"
proof (induction "10 - attempts" arbitrary: attempts s)
  case 0
  then show ?case by (simp add: quote_loop_done)
next
  case (Suc n)
  then have lt: "attempts < 10" by simp
  let ?f = "chosen_file w fs (draws s)"
  show ?case
  proof (cases "read_file w ?f")
    case (Inl e)
    show ?thesis
      using Suc.hyps(2) by (simp only: quote_loop_error[OF lt Inl]) (rule Suc.hyps(1), simp)
  next
    case (Inr content)
    show ?thesis
    proof (cases "extract_paragraphs self content = []")
      case True
      show ?thesis
        using Suc.hyps(2)
        by (simp only: quote_loop_empty[OF lt Inr True]) (rule Suc.hyps(1), simp)
    next
      case False
      show ?thesis by (simp add: quote_loop_found[OF lt Inr False])
    qed
  qed
qed

section \<open>The paragraph extractor\<close>



text \<open>
  C2. A line that is not skippable never ends a paragraph: it leaves the list of
  paragraphs as it is. If \<open>is_markup_only\<close> judges it markup-only, it changes nothing at
  all, and the document gives the same paragraphs as the document without that line, so
  the prose lines around it are joined into one paragraph.
\<close>

theorem markup_only_line_keeps_buffer:
  "(\<not> any (skip_conditions (strip l))
    \<longrightarrow> paragraphs (loop_body self i l st) = paragraphs st)
   \<and> (\<not> any (skip_conditions (strip l)) \<and> is_markup_only self (strip l)
    \<longrightarrow> loop_body self i l st = st)
   \<and> (\<not> any (skip_conditions (strip l)) \<and> is_markup_only self (strip l) \<and> pre \<noteq> []
      \<and> split_newline content = pre @ l # post \<and> split_newline content' = pre @ post
    \<longrightarrow> extract_paragraphs self content = extract_paragraphs self content')"
proof -
  have whole: "extract_paragraphs self content = extract_paragraphs self content'"
    if a: "\<not> any (skip_conditions (strip l))" "is_markup_only self (strip l)" "pre \<noteq> []"
      "split_newline content = pre @ l # post" "split_newline content' = pre @ post"
  proof -
    have "state_after self (pre @ l # post)
            = lines_loop self (Suc (length pre)) post (state_after self pre)"
      using a by (simp add: state_after_append loop_body_markup_only)
    also have "\<dots> = lines_loop self (length pre) post (state_after self pre)"
      using a by (intro lines_loop_index) simp_all
    finally show ?thesis
      using a by (simp add: extract_paragraphs_state_after state_after_append)
  qed
  show ?thesis
    using whole loop_body_not_skippable[of l self i st] loop_body_markup_only[of l self i st]
    by blast
qed

theorem markup_only_line_keeps_buffer_witness:
  "50 \<le> length wiki_link_line
   \<and> \<not> any (skip_conditions (strip wiki_link_line))
   \<and> is_markup_only example_display (strip wiki_link_line)
   \<and> split_newline (first_half @ ''\<newline>'' @ wiki_link_line @ ''\<newline>'' @ second_half)
       = [first_half] @ wiki_link_line # [second_half]
   \<and> split_newline (first_half @ ''\<newline>'' @ second_half) = [first_half] @ [second_half]
   \<and> extract_paragraphs example_display
         (first_half @ ''\<newline>'' @ wiki_link_line @ ''\<newline>'' @ second_half)
       = [first_half @ '' '' @ second_half]"
proof -
  have h1: "\<not> any (skip_conditions (strip wiki_link_line))" by code_simp
  have h2: "is_markup_only example_display (strip wiki_link_line)" by code_simp
  have h3: "split_newline (first_half @ ''\<newline>'' @ wiki_link_line @ ''\<newline>'' @ second_half)
              = [first_half] @ wiki_link_line # [second_half]" by code_simp
  have h4: "split_newline (first_half @ ''\<newline>'' @ second_half) = [first_half] @ [second_half]"
    by code_simp
  have without: "extract_paragraphs example_display (first_half @ ''\<newline>'' @ second_half)
                   = [first_half @ '' '' @ second_half]" by code_simp
  have "extract_paragraphs example_display
          (first_half @ ''\<newline>'' @ wiki_link_line @ ''\<newline>'' @ second_half)
        = extract_paragraphs example_display (first_half @ ''\<newline>'' @ second_half)"
    using markup_only_line_keeps_buffer
            [of "wiki_link_line" example_display _ _ "[first_half]"
                "first_half @ ''\<newline>'' @ wiki_link_line @ ''\<newline>'' @ second_half"
                "[second_half]" "first_half @ ''\<newline>'' @ second_half"]
          h1 h2 h3 h4
    by blast
  moreover have "50 \<le> length wiki_link_line" by code_simp
  ultimately show ?thesis using h1 h2 h3 h4 without by (simp only: simp_thms)
qed

text \<open>
  C3. When the first line trims to \<open>---\<close>, the lines up to and including the next line
  that trims to \<open>---\<close> take no part in the extraction, whatever they hold: the document
  gives the paragraphs of the document that has one empty line in their place. When no
  later line trims to \<open>---\<close>, nothing is returned.
\<close>

theorem frontmatter_excluded:
  "(split_newline content = l0 # fm @ c # rest \<and> strip l0 = ''---''
      \<and> list_all (\<lambda>l. strip l \<noteq> ''---'') fm \<and> strip c = ''---''
      \<and> split_newline content' = [] # rest
    \<longrightarrow> extract_paragraphs self content = extract_paragraphs self content')
   \<and> (split_newline content = l0 # ls \<and> strip l0 = ''---''
      \<and> list_all (\<lambda>l. strip l \<noteq> ''---'') ls
    \<longrightarrow> extract_paragraphs self content = [])"
proof -
  let ?in = "initial_state\<lparr>in_frontmatter := True\<rparr>"
  have closed: "extract_paragraphs self content = extract_paragraphs self content'"
    if a: "split_newline content = l0 # fm @ c # rest" "strip l0 = ''---''"
      "list_all (\<lambda>l. strip l \<noteq> ''---'') fm" "strip c = ''---''"
      "split_newline content' = [] # rest"
  proof -
    have open_fm: "loop_body self 0 l0 initial_state = ?in"
      using a by (simp add: loop_body_def)
    have inside: "lines_loop self (Suc 0) fm ?in = ?in"
      using a by (intro lines_loop_in_frontmatter) simp_all
    have close_fm: "loop_body self (Suc (length fm)) c ?in = initial_state"
      using a by (simp add: loop_body_def initial_state_def)
    have "state_after self (l0 # fm @ c # rest)
            = lines_loop self (Suc (Suc (length fm))) rest initial_state"
      by (simp add: state_after_def open_fm lines_loop_append inside close_fm)
    also have "\<dots> = lines_loop self 1 rest initial_state"
      by (rule lines_loop_index) simp_all
    also have "\<dots> = state_after self ([] # rest)"
      using any_skip_empty
      by (simp add: state_after_def loop_body_def strip_def initial_state_def)
    finally show ?thesis
      using a by (simp add: extract_paragraphs_state_after)
  qed
  have unclosed: "extract_paragraphs self content = []"
    if a: "split_newline content = l0 # ls" "strip l0 = ''---''"
      "list_all (\<lambda>l. strip l \<noteq> ''---'') ls"
  proof -
    have open_fm: "loop_body self 0 l0 initial_state = ?in"
      using a by (simp add: loop_body_def)
    have inside: "lines_loop self (Suc 0) ls ?in = ?in"
      using a by (intro lines_loop_in_frontmatter) simp_all
    have "state_after self (l0 # ls) = ?in"
      by (simp add: state_after_def open_fm inside)
    then show ?thesis
      using a
      by (simp add: extract_paragraphs_state_after last_paragraph_def initial_state_def)
  qed
  show ?thesis using closed unclosed by blast
qed

theorem frontmatter_excluded_witness:
  "split_newline (''---\<newline># Hidden Title\<newline>tags: book\<newline> --- \<newline>'' @ prose_101)
     = ''---'' # [''# Hidden Title'', ''tags: book''] @ '' --- '' # [prose_101]
   \<and> extract_paragraphs example_display
         (''---\<newline># Hidden Title\<newline>tags: book\<newline> --- \<newline>'' @ prose_101)
       = [prose_101]
   \<and> split_newline (''---\<newline># Hidden Title\<newline>'' @ prose_101)
       = ''---'' # [''# Hidden Title'', prose_101]
   \<and> extract_paragraphs example_display (''---\<newline># Hidden Title\<newline>'' @ prose_101) = []"
proof -
  have h1: "split_newline
              (''---\<newline># Hidden Title\<newline>tags: book\<newline> --- \<newline>'' @ prose_101)
            = ''---'' # [''# Hidden Title'', ''tags: book''] @ '' --- '' # [prose_101]"
    by code_simp
  have h2: "strip ''---'' = ''---''" by code_simp
  have h3: "list_all (\<lambda>l. strip l \<noteq> ''---'') [''# Hidden Title'', ''tags: book'']"
    by code_simp
  have h4: "strip '' --- '' = ''---''" by code_simp
  have h5: "split_newline (''\<newline>'' @ prose_101) = [] # [prose_101]" by code_simp
  have rest: "extract_paragraphs example_display (''\<newline>'' @ prose_101) = [prose_101]"
    by code_simp
  have g1: "split_newline (''---\<newline># Hidden Title\<newline>'' @ prose_101)
            = ''---'' # [''# Hidden Title'', prose_101]"
    by code_simp
  have g3: "list_all (\<lambda>l. strip l \<noteq> ''---'') [''# Hidden Title'', prose_101]"
    by code_simp
  have closed: "extract_paragraphs example_display
                  (''---\<newline># Hidden Title\<newline>tags: book\<newline> --- \<newline>'' @ prose_101)
                = extract_paragraphs example_display (''\<newline>'' @ prose_101)"
    using frontmatter_excluded
            [of "''---\<newline># Hidden Title\<newline>tags: book\<newline> --- \<newline>'' @ prose_101"
                "''---''" "[''# Hidden Title'', ''tags: book'']" "'' --- ''" "[prose_101]"
                "''\<newline>'' @ prose_101" example_display]
          h1 h2 h3 h4 h5
    by blast
  have unclosed: "extract_paragraphs example_display
                    (''---\<newline># Hidden Title\<newline>'' @ prose_101) = []"
    using frontmatter_excluded
            [of "''---\<newline># Hidden Title\<newline>'' @ prose_101" "''---''" _ _ _ _
                example_display "[''# Hidden Title'', prose_101]"]
          g1 h2 g3
    by blast
  from h1 g1 closed rest unclosed show ?thesis by (simp only: simp_thms)
qed

text \<open>
  C4. A line whose trimmed form meets a skip condition, as the line \<open>![[embed.png]]\<close>
  does, adds nothing to the state of the loop: behind it the buffer is empty and the list
  of paragraphs has grown by the paragraph of the buffer, if that is longer than 100
  characters, and by nothing else. Unless it trims to \<open>---\<close>, the document gives the same
  paragraphs as the document with an empty line in its place.
\<close>

theorem skippable_line_discarded:
  "any (skip_conditions (strip ''![[embed.png]]''))
   \<and> (any (skip_conditions (strip l)) \<and> st = state_after self pre
      \<longrightarrow> current_paragraph (state_after self (pre @ [l])) = []
        \<and> paragraphs (state_after self (pre @ [l]))
            = paragraphs st @
                (if current_paragraph st \<noteq> [] \<and> 100 < length (strip (join_space (current_paragraph st)))
                 then [strip (join_space (current_paragraph st))] else []))
   \<and> (any (skip_conditions (strip l)) \<and> strip l \<noteq> ''---'' \<and> pre \<noteq> []
      \<and> split_newline content = pre @ l # post \<and> split_newline content' = pre @ [] # post
      \<longrightarrow> extract_paragraphs self content = extract_paragraphs self content')"
proof -
  have embed: "any (skip_conditions (strip ''![[embed.png]]''))"
    by (simp add: any_def skip_conditions_def strip_def isspace_def code_point_def startswith_def)
  have step: "current_paragraph (state_after self (pre @ [l])) = []
        \<and> paragraphs (state_after self (pre @ [l]))
            = paragraphs st @
                (if current_paragraph st \<noteq> [] \<and> 100 < length (strip (join_space (current_paragraph st)))
                 then [strip (join_space (current_paragraph st))] else [])"
    if a: "any (skip_conditions (strip l))" "st = state_after self pre"
  proof -
    have e: "in_frontmatter st \<or> length pre = 0 \<longrightarrow> current_paragraph st = []"
      using a state_after_buffer_empty[of self pre] by simp
    show ?thesis
      using a e by (auto simp add: state_after_snoc loop_body_def Let_def)
  qed
  have whole: "extract_paragraphs self content = extract_paragraphs self content'"
    if a: "any (skip_conditions (strip l))" "strip l \<noteq> ''---''" "pre \<noteq> []"
      "split_newline content = pre @ l # post" "split_newline content' = pre @ [] # post"
  proof -
    have "loop_body self (length pre) l (state_after self pre)
            = loop_body self (length pre) [] (state_after self pre)"
      using a any_skip_empty by (simp add: loop_body_def strip_def Let_def)
    then have "state_after self (pre @ l # post) = state_after self (pre @ [] # post)"
      by (simp add: state_after_append)
    then show ?thesis
      using a by (simp add: extract_paragraphs_state_after)
  qed
  show ?thesis using embed step whole by blast
qed

theorem skippable_line_discarded_witness:
  "any (skip_conditions (strip ''![[embed.png]]''))
   \<and> current_paragraph (state_after example_display [prose_101]) = [prose_101]
   \<and> current_paragraph (state_after example_display ([prose_101] @ [''![[embed.png]]''])) = []
   \<and> paragraphs (state_after example_display ([prose_101] @ [''![[embed.png]]''])) = [prose_101]
   \<and> split_newline (prose_101 @ ''\<newline>![[embed.png]]\<newline>'' @ prose_105)
       = [prose_101] @ ''![[embed.png]]'' # [prose_105]
   \<and> extract_paragraphs example_display (prose_101 @ ''\<newline>![[embed.png]]\<newline>'' @ prose_105)
       = [prose_101, prose_105]"
proof -
  have h1: "any (skip_conditions (strip ''![[embed.png]]''))" by code_simp
  have h2: "strip ''![[embed.png]]'' \<noteq> ''---''" by code_simp
  have st: "state_after example_display [prose_101]
              = \<lparr>in_frontmatter = False, paragraphs = [], current_paragraph = [prose_101]\<rparr>"
    by code_simp
  have p: "strip prose_101 = prose_101" by code_simp
  have l: "length prose_101 = 101" by code_simp
  have h3: "split_newline (prose_101 @ ''\<newline>![[embed.png]]\<newline>'' @ prose_105)
              = [prose_101] @ ''![[embed.png]]'' # [prose_105]" by code_simp
  have h4: "split_newline (prose_101 @ ''\<newline>\<newline>'' @ prose_105) = [prose_101] @ [] # [prose_105]"
    by code_simp
  have blank: "extract_paragraphs example_display (prose_101 @ ''\<newline>\<newline>'' @ prose_105)
                 = [prose_101, prose_105]" by code_simp
  note inst = skippable_line_discarded
               [of "''![[embed.png]]''" "state_after example_display [prose_101]"
                   example_display "[prose_101]"
                   "prose_101 @ ''\<newline>![[embed.png]]\<newline>'' @ prose_105" "[prose_105]"
                   "prose_101 @ ''\<newline>\<newline>'' @ prose_105"]
  have step: "current_paragraph (state_after example_display ([prose_101] @ [''![[embed.png]]''])) = []
        \<and> paragraphs (state_after example_display ([prose_101] @ [''![[embed.png]]''])) = [prose_101]"
    using inst h1 by (simp add: st p l)
  have whole: "extract_paragraphs example_display
                 (prose_101 @ ''\<newline>![[embed.png]]\<newline>'' @ prose_105)
               = extract_paragraphs example_display (prose_101 @ ''\<newline>\<newline>'' @ prose_105)"
    using inst h1 h2 h3 h4 by blast
  from h1 h3 step whole blank show ?thesis
    by (simp only: st extract_state.simps simp_thms)
qed

text \<open>
  C9. Every string that \<open>extract_paragraphs\<close> returns is longer than 100 characters,
  neither starts nor ends with a whitespace character, and holds no newline.
\<close>

theorem extract_paragraphs_output_invariant:
  "\<forall>p\<in>set (extract_paragraphs self content).
     100 < length p \<and> \<not> isspace (hd p) \<and> \<not> isspace (last p) \<and> CHR ''\<newline>'' \<notin> set p"
  using extract_paragraphs_well_formed[of self content]
  by (simp add: list_all_iff well_formed_def)

theorem extract_paragraphs_output_invariant_witness:
  "prose_105 \<in> set (extract_paragraphs example_display
                       (''# Notes\<newline>   '' @ prose_101 @ ''\<newline>\<newline>'' @ prose_105 @ ''  \<newline>''))
   \<and> 100 < length prose_105 \<and> \<not> isspace (hd prose_105) \<and> \<not> isspace (last prose_105)
   \<and> CHR ''\<newline>'' \<notin> set prose_105"
proof -
  have m: "prose_105 \<in> set (extract_paragraphs example_display
                       (''# Notes\<newline>   '' @ prose_101 @ ''\<newline>\<newline>'' @ prose_105 @ ''  \<newline>''))"
    by code_simp
  with extract_paragraphs_output_invariant
         [of example_display "''# Notes\<newline>   '' @ prose_101 @ ''\<newline>\<newline>'' @ prose_105 @ ''  \<newline>''"]
  show ?thesis by blast
qed

section \<open>The book title\<close>




section \<open>The cleaner and the selection of a quote\<close>



text \<open>
  C7. \<open>get_random_quote\<close> has three outcomes. With no markdown file it returns the first
  message at once: nothing is drawn, opened or printed. If ten attempts in a row end
  without a quote, it returns the second message, which differs from the first, after ten
  reads. A file that cannot be read or decoded uses up its attempt: the message is
  printed and the loop goes on with the next attempt. Whatever the files are, the result
  is one of the two messages or a quote.
\<close>

theorem get_random_quote_outcomes:
  "(get_markdown_files self w = []
    \<longrightarrow> get_random_quote self w s
        = (Message ''No markdown files found in the Books directory!'', s))
   \<and> (get_markdown_files self w = fs \<and> fs \<noteq> []
      \<and> (\<forall>k<10. yields_nothing self w (chosen_file w fs (draws s + k)))
    \<longrightarrow> fst (get_random_quote self w s)
          = Message ''No suitable content found in your book notes.''
        \<and> length (opened (snd (get_random_quote self w s))) = length (opened s) + 10)
   \<and> (attempts < 10 \<and> f = chosen_file w fs (draws s) \<and> read_file w f = Inl e
    \<longrightarrow> quote_loop self w fs attempts s
        = quote_loop self w fs (attempts + 1)
            (s\<lparr>draws := Suc (draws s), opened := opened s @ [f],
               stdout := stdout s
                 @ [''Error reading '' @ path_str f @ '': '' @ exception_str e]\<rparr>))
   \<and> (case fst (get_random_quote self w s) of
         Message m \<Rightarrow> m = ''No markdown files found in the Books directory!''
                       \<or> m = ''No suitable content found in your book notes.''
       | Quote q \<Rightarrow> True)
   \<and> ''No markdown files found in the Books directory!''
       \<noteq> ''No suitable content found in your book notes.''"
proof -
  have no_files: "get_random_quote self w s
        = (Message ''No markdown files found in the Books directory!'', s)"
    if "get_markdown_files self w = []"
    using that by (simp add: get_random_quote_def)
  have no_content: "fst (get_random_quote self w s)
          = Message ''No suitable content found in your book notes.''
        \<and> length (opened (snd (get_random_quote self w s))) = length (opened s) + 10"
    if a: "get_markdown_files self w = fs" "fs \<noteq> []"
      "\<forall>k<10. yields_nothing self w (chosen_file w fs (draws s + k))"
  proof -
    have "\<forall>k. 0 + k < 10 \<longrightarrow> yields_nothing self w (chosen_file w fs (draws s + k))"
      using a(3) by simp
    then have "fst (quote_loop self w fs 0 s)
                 = Message ''No suitable content found in your book notes.''
        \<and> length (opened (snd (quote_loop self w fs 0 s))) = length (opened s) + (10 - 0)"
      by (intro quote_loop_nothing) simp_all
    then show ?thesis using a by (simp add: get_random_quote_def)
  qed
  have error: "quote_loop self w fs attempts s
        = quote_loop self w fs (attempts + 1)
            (s\<lparr>draws := Suc (draws s), opened := opened s @ [f],
               stdout := stdout s
                 @ [''Error reading '' @ path_str f @ '': '' @ exception_str e]\<rparr>)"
    if "attempts < 10" "f = chosen_file w fs (draws s)" "read_file w f = Inl e"
    using that by (simp add: quote_loop_error)
  have outcome: "(case fst (get_random_quote self w s) of
         Message m \<Rightarrow> m = ''No markdown files found in the Books directory!''
                       \<or> m = ''No suitable content found in your book notes.''
       | Quote q \<Rightarrow> True)"
    using quote_loop_outcome[of self w "get_markdown_files self w" 0 s]
    by (cases "get_markdown_files self w = []")
       (auto simp add: get_random_quote_def Let_def split: quote_result.splits)
  have distinct: "''No markdown files found in the Books directory!''
       \<noteq> ''No suitable content found in your book notes.''"
    by simp
  show ?thesis using no_files no_content error outcome distinct by blast
qed

theorem get_random_quote_outcomes_witness:
  "get_markdown_files example_display empty_world = []
   \<and> get_random_quote example_display empty_world fresh_io
       = (Message ''No markdown files found in the Books directory!'', fresh_io)
   \<and> get_markdown_files example_display short_notes_world = [walden_path]
   \<and> yields_nothing example_display short_notes_world walden_path
   \<and> fst (get_random_quote example_display short_notes_world fresh_io)
       = Message ''No suitable content found in your book notes.''
   \<and> length (opened (snd (get_random_quote example_display short_notes_world fresh_io))) = 10
   \<and> read_file unreadable_world walden_path = Inl (UnicodeDecodeError ''invalid start byte'')
   \<and> quote_loop example_display unreadable_world [walden_path] 0 fresh_io
       = quote_loop example_display unreadable_world [walden_path] 1
           \<lparr>draws = 1, opened = [walden_path],
            stdout = [''Error reading /notes/Books/Walden Pond.md: invalid start byte'']\<rparr>"
proof -
  note inst_empty = get_random_quote_outcomes
                      [where self = example_display and w = empty_world and s = fresh_io]
  note inst_short = get_random_quote_outcomes
                      [where self = example_display and w = short_notes_world
                         and s = fresh_io and fs = "[walden_path]"]
  note inst_error = get_random_quote_outcomes
                      [where self = example_display and w = unreadable_world
                         and s = fresh_io and fs = "[walden_path]" and attempts = 0
                         and f = walden_path
                         and e = "UnicodeDecodeError ''invalid start byte''"]
  have e: "get_markdown_files example_display empty_world = []" by code_simp
  have g: "get_markdown_files example_display short_notes_world = [walden_path]" by code_simp
  have y: "yields_nothing example_display short_notes_world walden_path" by code_simp
  have all: "\<forall>k<10. yields_nothing example_display short_notes_world
                       (chosen_file short_notes_world [walden_path] (draws fresh_io + k))"
    using y by (simp add: chosen_file_def)
  have o: "length (opened fresh_io) = 0" by (simp add: fresh_io_def)
  have r: "read_file unreadable_world walden_path = Inl (UnicodeDecodeError ''invalid start byte'')"
    by (simp add: unreadable_world_def)
  have f: "walden_path = chosen_file unreadable_world [walden_path] (draws fresh_io)"
    by (simp add: chosen_file_def)
  have s1: "fresh_io\<lparr>draws := Suc (draws fresh_io), opened := opened fresh_io @ [walden_path],
               stdout := stdout fresh_io
                 @ [''Error reading '' @ path_str walden_path @ '': ''
                      @ exception_str (UnicodeDecodeError ''invalid start byte'')]\<rparr>
            = \<lparr>draws = 1, opened = [walden_path],
               stdout = [''Error reading /notes/Books/Walden Pond.md: invalid start byte'']\<rparr>"
    by (simp add: fresh_io_def walden_path_def)
  have a: "get_random_quote example_display empty_world fresh_io
       = (Message ''No markdown files found in the Books directory!'', fresh_io)"
    using inst_empty e by blast
  have b: "fst (get_random_quote example_display short_notes_world fresh_io)
       = Message ''No suitable content found in your book notes.''
     \<and> length (opened (snd (get_random_quote example_display short_notes_world fresh_io))) = 10"
    using inst_short g all o by simp
  have c: "quote_loop example_display unreadable_world [walden_path] 0 fresh_io
       = quote_loop example_display unreadable_world [walden_path] 1
           \<lparr>draws = 1, opened = [walden_path],
            stdout = [''Error reading /notes/Books/Walden Pond.md: invalid start byte'']\<rparr>"
    using inst_error r f s1 by simp
  from e a g y b r c show ?thesis by (simp only: simp_thms)
qed

section \<open>The link\<close>

text \<open>
  C8, as the spec states it, fails: the path is quoted with the default \<open>safe='/'\<close>, so a
  slash of the path stays a slash, where URI component encoding gives \<open>%2F\<close>.
\<close>

theorem obsidian_uri_encodes_slash_counterexample:
  "get_obsidian_uri example_display walden_path = ''obsidian://open?path=/notes/Books/Walden%20Pond.md''
   \<and> ''obsidian://open?path='' @ uri_component_encode (path_absolute walden_path)
       = ''obsidian://open?path=%2Fnotes%2FBooks%2FWalden%20Pond.md''
   \<and> get_obsidian_uri example_display walden_path
       \<noteq> ''obsidian://open?path='' @ uri_component_encode (path_absolute walden_path)"
  by code_simp

text \<open>
  C8, amended. \<open>get_obsidian_uri\<close> returns \<open>obsidian://open?path=\<close> followed by the
  absolute path in which every \<open>/\<close> is kept and every other character is encoded as URI
  component encoding encodes it.
\<close>

theorem obsidian_uri_keeps_slash:
  "get_obsidian_uri self file_path
     = ''obsidian://open?path='' @
       concat (map (\<lambda>c. if c = CHR ''/'' then ''/'' else uri_component_encode [c])
                 (path_absolute file_path))"
  by (simp add: get_obsidian_uri_def quote_slash)

theorem obsidian_uri_keeps_slash_witness:
  "get_obsidian_uri example_display walden_path
     = ''obsidian://open?path='' @ ''/'' @ uri_component_encode ''notes'' @ ''/''
         @ uri_component_encode ''Books'' @ ''/'' @ uri_component_encode ''Walden Pond.md''
   \<and> uri_component_encode ''Walden Pond.md'' = ''Walden%20Pond.md''"
proof -
  have "concat (map (\<lambda>c. if c = CHR ''/'' then ''/'' else uri_component_encode [c])
                 (path_absolute walden_path))
        = ''/'' @ uri_component_encode ''notes'' @ ''/''
         @ uri_component_encode ''Books'' @ ''/'' @ uri_component_encode ''Walden Pond.md''"
    by code_simp
  moreover have "uri_component_encode ''Walden Pond.md'' = ''Walden%20Pond.md''" by code_simp
  ultimately show ?thesis
    using obsidian_uri_keeps_slash[of example_display walden_path] by simp
qed

section \<open>Independence of the object\<close>



end
